theory Spec2Isabelle
  imports Complex_Main "HOL-Library.Multiset"
begin

section \<open>Data model\<close>

text \<open>
  Elapsed times and clock readings are Python floats; they are modelled as reals
  (the sign of a float difference is the sign of the real difference).
\<close>

type_synonym seconds = real

text \<open>
  The exceptions of the program: whatever the workload adapter raises (\<open>Raised\<close>,
  with a text that identifies the exception), \<open>ValueError\<close> with its message, and the
  two arithmetic errors of \<open>long_factorize\<close>.
\<close>

datatype exn = Raised string | ValueError string | ZeroDivisionError | OverflowError

text \<open>What \<open>print\<close> writes: the payload of each line, not its formatting.\<close>

datatype 'v msg =
    Running string
  | Results "'v list"
  | TaskTimes "seconds list" seconds
  | ActualTime seconds
  | FindingFactors int int int
  | Product int int int

text \<open>
  The environment of one run. \<open>clock\<close> is the sequence of values that successive calls
  of \<open>time()\<close> return in the calling thread (\<open>time.time\<close>, the wall clock, so no order
  between the readings is assumed) and \<open>reads\<close> counts the calls made so far.
  \<open>yield_rank\<close> is the rank at which \<open>concurrent.futures.as_completed\<close> yields the
  future of a given index in this run: the futures already finished when it is called
  come first, in the iteration order of a set, the others follow as they finish. The
  rank is the run's own; no relation to the finishing instants is assumed.
  \<open>pools_created\<close> and \<open>pools_closed\<close> count executor constructions and shutdowns,
  \<open>submitted\<close> logs the indices handed to the pool (workers invoke the adapter on
  submitted tasks only), \<open>stdout\<close> is what was printed.
\<close>

record 'v world =
  clock :: "nat \<Rightarrow> seconds"
  reads :: nat
  yield_rank :: "nat \<Rightarrow> nat"
  pools_created :: nat
  pools_closed :: nat
  submitted :: "nat list"
  stdout :: "'v msg list"

text \<open>
  A workload adapter: a callable with a \<open>__name__\<close> which, called with a task index
  and the verbosity flag, returns a pair (value, elapsed) or raises.
\<close>

record 'v adapter =
  name :: string
  invoke :: "nat \<Rightarrow> bool \<Rightarrow> exn + ('v \<times> seconds)"

datatype pool_kind = ThreadPoolExecutor | ProcessPoolExecutor

text \<open>A future: the index of its task and the outcome the task ends with.\<close>

datatype 'v future = Future (task_index: nat) (outcome: "exn + ('v \<times> seconds)")

section \<open>utils.py\<close>

subsection \<open>The timing wrapper\<close>

definition time :: "'v world \<Rightarrow> seconds \<times> 'v world" where
  "time w = (clock w (reads w), w\<lparr>reads := Suc (reads w)\<rparr>)"

text \<open>
  \<open>timed(f)\<close>: read the clock, call \<open>f\<close>, read the clock again, return the result with
  the difference. An exception of \<open>f\<close> leaves the wrapper before the second reading.
\<close>

definition timed ::
  "('v world \<Rightarrow> (exn + 'a) \<times> 'v world) \<Rightarrow> 'v world \<Rightarrow> (exn + ('a \<times> seconds)) \<times> 'v world" where
  "timed f w =
     (let (t0, w1) = time w;
          (r, w2) = f w1
      in case r of
           Inl e \<Rightarrow> (Inl e, w2)
         | Inr result \<Rightarrow> (let (t1, w3) = time w2; t = t1 - t0 in (Inr (result, t), w3)))"

subsection \<open>The executor (concurrent.futures)\<close>

text \<open>
  \<open>pool_type(max_workers)\<close>: both executor classes raise \<open>ValueError\<close> for a
  \<open>max_workers\<close> that is not positive; \<open>None\<close> takes the default.
\<close>

definition new_pool :: "pool_kind \<Rightarrow> int option \<Rightarrow> 'v world \<Rightarrow> (exn + unit) \<times> 'v world" where
  "new_pool pool_type max_workers w =
     (case max_workers of
        None \<Rightarrow> (Inr (), w\<lparr>pools_created := Suc (pools_created w)\<rparr>)
      | Some m \<Rightarrow>
          if m \<le> 0 then (Inl (ValueError ''max_workers must be greater than 0''), w)
          else (Inr (), w\<lparr>pools_created := Suc (pools_created w)\<rparr>))"

text \<open>Leaving the \<open>with\<close> block shuts the pool down, on every exit path.\<close>

definition shutdown :: "'v world \<Rightarrow> 'v world" where
  "shutdown w = w\<lparr>pools_closed := Suc (pools_closed w)\<rparr>"

definition pool_submit ::
  "(nat \<Rightarrow> exn + ('v \<times> seconds)) \<Rightarrow> nat \<Rightarrow> 'v world \<Rightarrow> 'v future \<times> 'v world" where
  "pool_submit pfun i w = (Future i (pfun i), w\<lparr>submitted := submitted w @ [i]\<rparr>)"

text \<open>\<open>task.result()\<close> returns the task's value or re-raises its exception.\<close>

definition future_result :: "'v future \<Rightarrow> exn + ('v \<times> seconds)" where
  "future_result task = outcome task"

text \<open>
  \<open>as_completed(tasks)\<close> yields every future once, in the order of the run's ranks
  (futures of equal rank in the order of submission).
\<close>

definition as_completed_order :: "'v world \<Rightarrow> 'v future list \<Rightarrow> 'v future list" where
  "as_completed_order w tasks = sort_key (\<lambda>task. yield_rank w (task_index task)) tasks"

text \<open>
  \<open>pool.map(pfun, range(n))\<close> submits one task per index at once and returns an
  iterator over their results in the order of the indices.
\<close>

definition pool_map ::
  "(nat \<Rightarrow> exn + ('v \<times> seconds)) \<Rightarrow> nat list \<Rightarrow> 'v world \<Rightarrow> 'v future list \<times> 'v world" where
  "pool_map pfun indices w =
     (map (\<lambda>i. Future i (pfun i)) indices, w\<lparr>submitted := submitted w @ indices\<rparr>)"

subsection \<open>The dispatchers\<close>

text \<open>The loop \<open>for i in range(n): tasks.append(pool.submit(pfun, i))\<close>.\<close>

fun submit_loop ::
  "(nat \<Rightarrow> exn + ('v \<times> seconds)) \<Rightarrow> nat list \<Rightarrow> 'v future list \<Rightarrow> 'v world
     \<Rightarrow> 'v future list \<times> 'v world" where
  "submit_loop pfun [] tasks w = (tasks, w)"
| "submit_loop pfun (i # rest) tasks w =
     (let (task, w') = pool_submit pfun i w in submit_loop pfun rest (tasks @ [task]) w')"

text \<open>
  The comprehension \<open>[task.result() for task in ...]\<close>, and the consumption of the
  iterator of \<open>pool.map\<close>: the first exception met ends it.
\<close>

fun collect_results :: "'v future list \<Rightarrow> exn + ('v \<times> seconds) list" where
  "collect_results [] = Inr []"
| "collect_results (task # rest) =
     (case future_result task of
        Inl e \<Rightarrow> Inl e
      | Inr rt \<Rightarrow> (case collect_results rest of Inl e \<Rightarrow> Inl e | Inr rts \<Rightarrow> Inr (rt # rts)))"

text \<open>
  \<open>results, times = zip(*results_times)\<close>. Every row is a pair, so \<open>zip\<close> of one or
  more rows yields exactly two tuples, the first and the second components; \<open>zip()\<close>
  of no row yields nothing, and unpacking it into two names raises \<open>ValueError\<close>.
\<close>

definition unpack_zip :: "('v \<times> seconds) list \<Rightarrow> exn + ('v list \<times> seconds list)" where
  "unpack_zip results_times =
     (if results_times = [] then Inl (ValueError ''not enough values to unpack (expected 2, got 0)'')
      else Inr (map fst results_times, map snd results_times))"

definition submit_get_results_body ::
  "'v adapter \<Rightarrow> nat \<Rightarrow> pool_kind \<Rightarrow> bool \<Rightarrow> int option \<Rightarrow> bool \<Rightarrow> 'v world
     \<Rightarrow> (exn + ('v list \<times> seconds list)) \<times> 'v world" where
  "submit_get_results_body timed_fun n pool_type as_completed max_workers verbose w =
     (case new_pool pool_type max_workers w of
        (Inl e, w0) \<Rightarrow> (Inl e, w0)
      | (Inr pool, w0) \<Rightarrow>
          (let pfun = (\<lambda>i. invoke timed_fun i verbose);
               (tasks, w1) = submit_loop pfun [0..<n] [] w0;
               results_times =
                 (if as_completed then collect_results (as_completed_order w1 tasks)
                  else collect_results tasks)
           in case results_times of
                Inl e \<Rightarrow> (Inl e, shutdown w1)
              | Inr rts \<Rightarrow> (unpack_zip rts, shutdown w1)))"

definition submit_get_results ::
  "'v adapter \<Rightarrow> nat \<Rightarrow> pool_kind \<Rightarrow> bool \<Rightarrow> int option \<Rightarrow> bool \<Rightarrow> 'v world
     \<Rightarrow> (exn + (('v list \<times> seconds list) \<times> seconds)) \<times> 'v world" where
  "submit_get_results timed_fun n pool_type as_completed max_workers verbose =
     timed (submit_get_results_body timed_fun n pool_type as_completed max_workers verbose)"

definition map_results_body ::
  "'v adapter \<Rightarrow> nat \<Rightarrow> pool_kind \<Rightarrow> int option \<Rightarrow> bool \<Rightarrow> 'v world
     \<Rightarrow> (exn + ('v list \<times> seconds list)) \<times> 'v world" where
  "map_results_body timed_fun n pool_type max_workers verbose w =
     (case new_pool pool_type max_workers w of
        (Inl e, w0) \<Rightarrow> (Inl e, w0)
      | (Inr pool, w0) \<Rightarrow>
          (let pfun = (\<lambda>i. invoke timed_fun i verbose);
               (results_times, w1) = pool_map pfun [0..<n] w0
           in case collect_results results_times of
                Inl e \<Rightarrow> (Inl e, shutdown w1)
              | Inr rts \<Rightarrow> (unpack_zip rts, shutdown w1)))"

definition map_results ::
  "'v adapter \<Rightarrow> nat \<Rightarrow> pool_kind \<Rightarrow> int option \<Rightarrow> bool \<Rightarrow> 'v world
     \<Rightarrow> (exn + (('v list \<times> seconds list) \<times> seconds)) \<times> 'v world" where
  "map_results timed_fun n pool_type max_workers verbose =
     timed (map_results_body timed_fun n pool_type max_workers verbose)"

subsection \<open>The reporting function\<close>

definition print :: "'v msg \<Rightarrow> 'v world \<Rightarrow> 'v world" where
  "print m w = w\<lparr>stdout := stdout w @ [m]\<rparr>"

definition report :: "('v list \<times> seconds list) \<times> seconds \<Rightarrow> 'v world \<Rightarrow> 'v world" where
  "report r w =
     (case r of ((results, task_times), total_time) \<Rightarrow>
        print (ActualTime total_time)
          (print (TaskTimes task_times (sum_list task_times))
             (print (Results results) w)))"

definition display_results ::
  "'v adapter \<Rightarrow> nat \<Rightarrow> pool_kind \<Rightarrow> string \<Rightarrow> bool \<Rightarrow> int option \<Rightarrow> bool \<Rightarrow> 'v world
     \<Rightarrow> (exn + unit) \<times> 'v world" where
  "display_results timed_fun n pool_type submit_type as_completed max_workers verbose w =
     (let w1 = print (Running (name timed_fun)) w in
      if submit_type = ''submit'' then
        (case submit_get_results timed_fun n pool_type as_completed max_workers verbose w1 of
           (Inl e, w2) \<Rightarrow> (Inl e, w2)
         | (Inr r, w2) \<Rightarrow> (Inr (), report r w2))
      else if submit_type = ''map'' then
        (case map_results timed_fun n pool_type max_workers verbose w1 of
           (Inl e, w2) \<Rightarrow> (Inl e, w2)
         | (Inr r, w2) \<Rightarrow> (Inr (), report r w2))
      else (Inl (ValueError (''Unrecognized value for submit_type: '' @ submit_type)), w1))"

section \<open>functions.py\<close>

subsection \<open>Integer true division by two\<close>

text \<open>
  \<open>int(value / 2)\<close>: Python's \<open>/\<close> on integers returns the double nearest to the
  quotient (ties to even) and raises \<open>OverflowError\<close> when that is beyond the largest
  double; \<open>int\<close> then cuts the fraction off, towards zero. Halving is exact in binary
  floating point, so the quotient's double is half of the dividend rounded to 53
  significant bits.
\<close>

fun bit_length :: "nat \<Rightarrow> nat" where
  "bit_length a = (if a = 0 then 0 else Suc (bit_length (a div 2)))"

definition round53 :: "nat \<Rightarrow> nat" where
  "round53 a =
     (let e = bit_length a in
      if e \<le> 53 then a
      else (let s = e - 53; m = a div 2 ^ s; r = a mod 2 ^ s; h = 2 ^ (s - 1) in
            if h < r \<or> (r = h \<and> odd m) then (m + 1) * 2 ^ s else m * 2 ^ s))"

definition int_of_half :: "int \<Rightarrow> exn + int" where
  "int_of_half value =
     (let r = round53 (nat \<bar>value\<bar>) in
      if 2 ^ 1025 \<le> r then Inl OverflowError
      else Inr (sgn value * int (r div 2)))"

subsection \<open>The factorizer\<close>

text \<open>The loop \<open>while next_guess > 1 and (value % next_guess): next_guess -= 1\<close>.\<close>

function trial_division :: "int \<Rightarrow> int \<Rightarrow> int" where
  "trial_division value next_guess =
     (if next_guess > 1 \<and> value mod next_guess \<noteq> 0
      then trial_division value (next_guess - 1)
      else next_guess)"
  by pat_completeness auto
termination
  by (relation "measure (\<lambda>(value, next_guess). nat next_guess)") auto

definition vprint :: "bool \<Rightarrow> 'v msg \<Rightarrow> 'v world \<Rightarrow> 'v world" where
  "vprint verbose m w = (if verbose then print m w else w)"

text \<open>
  The undecorated function. \<open>//\<close> is floor division, which is \<open>div\<close> on \<open>int\<close>, and
  raises \<open>ZeroDivisionError\<close> for a zero divisor.
\<close>

definition long_factorize_body ::
  "int \<Rightarrow> int \<Rightarrow> bool \<Rightarrow> 'v world \<Rightarrow> (exn + (int \<times> int \<times> int)) \<times> 'v world" where
  "long_factorize_body offset base verbose w =
     (let value = base + offset;
          w1 = vprint verbose (FindingFactors base offset value) w
      in case int_of_half value of
           Inl e \<Rightarrow> (Inl e, w1)
         | Inr start \<Rightarrow>
             (let next_guess = trial_division value start;
                  f1 = next_guess
              in if next_guess = 0 then (Inl ZeroDivisionError, w1)
                 else (let f2 = value div next_guess
                       in (Inr (value, f1, f2), vprint verbose (Product (f1 * f2) f1 f2) w1))))"

definition long_factorize ::
  "int \<Rightarrow> int \<Rightarrow> bool \<Rightarrow> 'v world \<Rightarrow> (exn + ((int \<times> int \<times> int) \<times> seconds)) \<times> 'v world" where
  "long_factorize offset base verbose = timed (long_factorize_body offset base verbose)"

section \<open>Auxiliary notions\<close>

text \<open>A \<open>max_workers\<close> that the executors accept: absent, or positive.\<close>

definition valid_workers :: "int option \<Rightarrow> bool" where
  "valid_workers max_workers = (case max_workers of None \<Rightarrow> True | Some m \<Rightarrow> 0 < m)"

text \<open>The futures of the tasks submitted for a list of indices.\<close>

definition tasks_of :: "'v adapter \<Rightarrow> bool \<Rightarrow> nat list \<Rightarrow> 'v future list" where
  "tasks_of a vb idxs = map (\<lambda>i. Future i (invoke a i vb)) idxs"

text \<open>
  The world at the start of a process: no clock reading made, no pool created, nothing
  submitted or printed; the clock and the yield ranks are the run's own.
\<close>

definition fresh_world :: "(nat \<Rightarrow> seconds) \<Rightarrow> (nat \<Rightarrow> nat) \<Rightarrow> 'v world" where
  "fresh_world clk rank =
     \<lparr>clock = clk, reads = 0, yield_rank = rank, pools_created = 0, pools_closed = 0,
      submitted = [], stdout = []\<rparr>"

text \<open>
  Adapters for concrete runs: one that returns its index with no elapsed time, one that
  raises on index 1, and one that returns its index after one second.
\<close>

definition index_adapter :: "nat adapter" where
  "index_adapter = \<lparr>name = ''index'', invoke = (\<lambda>i verbose. Inr (i, 0))\<rparr>"

definition failing_adapter :: "nat adapter" where
  "failing_adapter =
     \<lparr>name = ''failing'',
      invoke = (\<lambda>i verbose. if i = 1 then Inl (Raised ''boom'') else Inr (i, 0))\<rparr>"


text \<open>
  The quotient \<open>value / 2\<close> is within the range of the doubles: \<open>value\<close>, rounded to
  53 significant bits, stays below \<open>2 ^ 1025\<close>.
\<close>

definition half_is_finite :: "int \<Rightarrow> bool" where
  "half_is_finite value = (round53 (nat \<bar>value\<bar>) < 2 ^ 1025)"

declare bit_length.simps [simp del]
declare trial_division.simps [simp del]

section \<open>The dispatch loops in closed form\<close>

lemma submit_loop_eq:
  "submit_loop pfun idxs tasks w =
     (tasks @ map (\<lambda>i. Future i (pfun i)) idxs, w\<lparr>submitted := submitted w @ idxs\<rparr>)"
  by (induction idxs arbitrary: tasks w) (simp_all add: pool_submit_def)

lemma collect_results_Inr_iff:
  "collect_results fs = Inr rts \<longleftrightarrow> map outcome fs = map Inr rts"
proof (induction fs arbitrary: rts)
  case Nil
  show ?case by auto
next
  case (Cons f fs)
  show ?case
  proof (cases "outcome f")
    case (Inl e)
    then show ?thesis by (cases rts) (simp_all add: future_result_def)
  next
    case (Inr rt)
    show ?thesis
    proof (cases "collect_results fs")
      case (Inl e)
      have "\<And>zs. map outcome fs \<noteq> map Inr zs" using Cons.IH Inl by auto
      with Inl Inr show ?thesis by (cases rts) (simp_all add: future_result_def)
    next
      case r: (Inr zs)
      from Cons.IH [of zs] r have "map outcome fs = map Inr zs" by simp
      with r Inr show ?thesis
        by (cases rts) (auto simp: future_result_def inj_map_eq_map [OF inj_Inr])
    qed
  qed
qed

lemma collect_results_Inl:
  "collect_results fs = Inl e \<Longrightarrow> \<exists>f\<in>set fs. outcome f = Inl e"
  by (induction fs) (auto simp: future_result_def split: sum.splits)

lemma collect_results_fails:
  assumes "f \<in> set fs" and "outcome f = Inl e"
  shows "\<exists>e'. collect_results fs = Inl e'"
proof (cases "collect_results fs")
  case (Inl e')
  then show ?thesis by simp
next
  case (Inr rts)
  then have "map outcome fs = map Inr rts" by (simp add: collect_results_Inr_iff)
  then have "outcome ` set fs = Inr ` set rts" by (metis set_map)
  with assms show ?thesis by force
qed

lemma insort_key_map:
  "insort_key f (g x) (map g xs) = map g (insort_key (\<lambda>y. f (g y)) x xs)"
  by (induction xs) simp_all

lemma sort_key_map: "sort_key f (map g xs) = map g (sort_key (\<lambda>y. f (g y)) xs)"
  by (induction xs) (simp_all add: insort_key_map)

lemma timed_eq:
  "timed f w =
     (case f (w\<lparr>reads := Suc (reads w)\<rparr>) of
        (Inl e, w2) \<Rightarrow> (Inl e, w2)
      | (Inr r, w2) \<Rightarrow>
          (Inr (r, clock w2 (reads w2) - clock w (reads w)), w2\<lparr>reads := Suc (reads w2)\<rparr>))"
  by (simp add: timed_def time_def Let_def split: prod.splits sum.splits)

lemma fst_timed:
  "fst (timed f w) =
     (case f (w\<lparr>reads := Suc (reads w)\<rparr>) of
        (Inl e, w2) \<Rightarrow> Inl e
      | (Inr r, w2) \<Rightarrow> Inr (r, clock w2 (reads w2) - clock w (reads w)))"
  by (simp add: timed_eq split: prod.splits sum.splits)

lemma new_pool_eq:
  "new_pool pk mw w =
     (if valid_workers mw then (Inr (), w\<lparr>pools_created := Suc (pools_created w)\<rparr>)
      else (Inl (ValueError ''max_workers must be greater than 0''), w))"
  by (simp add: new_pool_def valid_workers_def split: option.splits)

lemma submit_get_results_body_eq:
  "submit_get_results_body a n pk ac mw vb w =
     (if valid_workers mw then
        (case collect_results
                (tasks_of a vb (if ac then sort_key (yield_rank w) [0..<n] else [0..<n])) of
           Inl e \<Rightarrow> Inl e
         | Inr rts \<Rightarrow> unpack_zip rts,
         w\<lparr>pools_created := Suc (pools_created w), submitted := submitted w @ [0..<n],
            pools_closed := Suc (pools_closed w)\<rparr>)
      else (Inl (ValueError ''max_workers must be greater than 0''), w))"
  by (simp add: submit_get_results_body_def new_pool_eq submit_loop_eq as_completed_order_def
      sort_key_map tasks_of_def shutdown_def split: sum.splits)

lemma map_results_body_eq:
  "map_results_body a n pk mw vb w = submit_get_results_body a n pk False mw vb w"
  by (simp add: map_results_body_def submit_get_results_body_def submit_loop_eq pool_map_def
      split: prod.splits sum.splits)

lemma collect_tasks_success:
  assumes "\<And>i. i \<in> set idxs \<Longrightarrow> invoke a i vb = Inr (val i, el i)"
  shows "collect_results (tasks_of a vb idxs) = Inr (map (\<lambda>i. (val i, el i)) idxs)"
  using assms by (simp add: collect_results_Inr_iff tasks_of_def o_def)

lemma collect_tasks_failure:
  assumes "i \<in> set idxs" and "invoke a i vb = Inl e"
  shows "\<exists>j e'. j \<in> set idxs \<and> invoke a j vb = Inl e' \<and> collect_results (tasks_of a vb idxs) = Inl e'"
proof -
  have "Future i (invoke a i vb) \<in> set (tasks_of a vb idxs)"
    using assms by (auto simp: tasks_of_def)
  from collect_results_fails [OF this] assms(2)
  obtain e' where e': "collect_results (tasks_of a vb idxs) = Inl e'" by auto
  from collect_results_Inl [OF this] show ?thesis using e' by (auto simp: tasks_of_def)
qed

lemma submit_get_results_fst:
  "fst (submit_get_results a n pk ac mw vb w) =
     (if valid_workers mw then
        (case collect_results
                (tasks_of a vb (if ac then sort_key (yield_rank w) [0..<n] else [0..<n])) of
           Inl e \<Rightarrow> Inl e
         | Inr rts \<Rightarrow>
             (case unpack_zip rts of
                Inl e \<Rightarrow> Inl e
              | Inr batches \<Rightarrow> Inr (batches, clock w (Suc (reads w)) - clock w (reads w))))
      else Inl (ValueError ''max_workers must be greater than 0''))"
  by (simp add: submit_get_results_def fst_timed submit_get_results_body_eq split: sum.splits)

lemma submit_get_results_submitted:
  "submitted (snd (submit_get_results a n pk ac mw vb w)) =
     (if valid_workers mw then submitted w @ [0..<n] else submitted w)"
  by (simp add: submit_get_results_def timed_eq submit_get_results_body_eq split: sum.splits)

lemma map_results_eq:
  "map_results a n pk mw vb = submit_get_results a n pk False mw vb"
  by (rule ext) (simp add: map_results_def submit_get_results_def timed_def map_results_body_eq)

lemma dispatch_success:
  assumes "valid_workers mw" and "0 < n"
    and "\<And>i. i < n \<Longrightarrow> invoke a i vb = Inr (val i, el i)"
  shows "fst (submit_get_results a n pk ac mw vb w) =
     Inr ((map val (if ac then sort_key (yield_rank w) [0..<n] else [0..<n]),
           map el (if ac then sort_key (yield_rank w) [0..<n] else [0..<n])),
          clock w (Suc (reads w)) - clock w (reads w))"
proof -
  define order where "order = (if ac then sort_key (yield_rank w) [0..<n] else [0..<n])"
  have set: "set order = {0..<n}" by (simp add: order_def)
  then have "collect_results (tasks_of a vb order) = Inr (map (\<lambda>i. (val i, el i)) order)"
    using assms(3) by (intro collect_tasks_success) simp
  moreover have "order \<noteq> []" using set assms(2) by auto
  ultimately show ?thesis using assms(1)
    by (simp add: submit_get_results_fst order_def [symmetric] unpack_zip_def o_def)
qed

lemma dispatch_failure:
  assumes "i < n" and "invoke a i vb = Inl e"
  shows "\<exists>e'. fst (submit_get_results a n pk ac mw vb w) = Inl e' \<and>
           (valid_workers mw \<longrightarrow> (\<exists>j<n. invoke a j vb = Inl e'))"
proof (cases "valid_workers mw")
  case False
  then show ?thesis by (simp add: submit_get_results_fst)
next
  case True
  define order where "order = (if ac then sort_key (yield_rank w) [0..<n] else [0..<n])"
  have set: "set order = {0..<n}" by (simp add: order_def)
  with assms(1) have "i \<in> set order" by simp
  from collect_tasks_failure [OF this assms(2)]
  obtain j e' where "j \<in> set order" "invoke a j vb = Inl e'"
    "collect_results (tasks_of a vb order) = Inl e'" by blast
  then show ?thesis using True set
    by (auto simp: submit_get_results_fst order_def [symmetric])
qed

lemma dispatch_returns_D:
  assumes "fst (submit_get_results a n pk ac mw vb w) = Inr r"
  shows "valid_workers mw" and "0 < n"
    and "\<And>i. i < n \<Longrightarrow>
           invoke a i vb = Inr (fst (projr (invoke a i vb)), snd (projr (invoke a i vb)))"
proof -
  show v: "valid_workers mw"
    using assms by (auto simp: submit_get_results_fst split: if_splits)
  show "0 < n"
  proof (rule ccontr)
    assume "\<not> 0 < n"
    then have "n = 0" by simp
    with assms v show False
      by (cases ac) (simp_all add: submit_get_results_fst tasks_of_def unpack_zip_def)
  qed
  fix i assume i: "i < n"
  show "invoke a i vb = Inr (fst (projr (invoke a i vb)), snd (projr (invoke a i vb)))"
  proof (cases "invoke a i vb")
    case (Inl e)
    from dispatch_failure [OF i Inl, of pk ac mw w] assms show ?thesis by auto
  next
    case (Inr p)
    then show ?thesis by simp
  qed
qed

lemma sort_desc: "sort_key (\<lambda>i. 2 - i) [0..<2] = [1, 0::nat]"
  by (simp add: upt_conv_Cons)


section \<open>Rounding and trial division\<close>

lemma bit_length_le_iff: "bit_length a \<le> k \<longleftrightarrow> a < 2 ^ k"
proof (induction a arbitrary: k rule: bit_length.induct)
  case (1 a)
  show ?case
  proof (cases "a = 0")
    case True
    then show ?thesis by (simp add: bit_length.simps [of 0])
  next
    case False
    show ?thesis
    proof (cases k)
      case 0
      with False show ?thesis by (simp add: bit_length.simps [of a])
    next
      case (Suc j)
      have "bit_length a \<le> Suc j \<longleftrightarrow> bit_length (a div 2) \<le> j"
        using False by (simp add: bit_length.simps [of a])
      also have "\<dots> \<longleftrightarrow> a div 2 < 2 ^ j" using "1.IH" [OF False] .
      also have "\<dots> \<longleftrightarrow> a < 2 ^ Suc j" by auto
      finally show ?thesis using Suc by simp
    qed
  qed
qed

lemma bit_length_lower: "0 < a \<Longrightarrow> 2 ^ (bit_length a - 1) \<le> a"
proof -
  assume pos: "0 < a"
  have "\<not> bit_length a \<le> bit_length a - 1"
    using pos by (simp add: bit_length.simps [of a])
  then show ?thesis by (simp add: bit_length_le_iff)
qed

lemma round53_small: "a < 2 ^ 53 \<Longrightarrow> round53 a = a"
  using bit_length_le_iff [of a 53] by (simp add: round53_def Let_def)

lemma round53_ge2: assumes "2 \<le> a" shows "2 \<le> round53 a"
proof (cases "bit_length a \<le> 53")
  case True
  with assms show ?thesis by (simp add: round53_def)
next
  case False
  define s where "s = bit_length a - 53"
  define m where "m = a div 2 ^ s"
  have s: "1 \<le> s" using False by (simp add: s_def)
  have "2 ^ (bit_length a - 1) \<le> a" using assms by (intro bit_length_lower) simp
  moreover have "(2::nat) ^ s \<le> 2 ^ (bit_length a - 1)"
    by (rule power_increasing) (simp_all add: s_def)
  ultimately have "2 ^ s \<le> a" by (rule order_trans [rotated])
  then have m: "1 \<le> m" unfolding m_def
    by (simp add: Suc_le_eq div_greater_zero_iff)
  have "(2::nat) ^ 1 \<le> 2 ^ s" using s by (intro power_increasing) simp_all
  then have two: "(2::nat) \<le> 2 ^ s" by simp
  have "2 \<le> m * 2 ^ s" using m two
    by (metis mult_le_mono nat_mult_1)
  moreover have "m * 2 ^ s \<le> (m + 1) * 2 ^ s" by simp
  ultimately show ?thesis using False
    by (auto simp: round53_def Let_def s_def [symmetric] m_def [symmetric])
qed

lemma round53_le_pow: assumes "a < 2 ^ k" and "53 \<le> k" shows "round53 a \<le> 2 ^ k"
proof (cases "bit_length a \<le> 53")
  case True
  with assms show ?thesis by (simp add: round53_def)
next
  case False
  define e where "e = bit_length a"
  define s where "s = e - 53"
  define m where "m = a div 2 ^ s"
  have e: "53 < e" "e \<le> k" using False assms bit_length_le_iff [of a k] by (simp_all add: e_def)
  have "a < 2 ^ e" using bit_length_le_iff [of a e] by (simp add: e_def)
  also have split: "(2::nat) ^ e = 2 ^ 53 * 2 ^ s"
  proof -
    have "e = 53 + s" using e by (simp add: s_def)
    then show ?thesis by (simp only: power_add)
  qed
  finally have "m < 2 ^ 53" unfolding m_def
    by (rule less_mult_imp_div_less)
  then have "m + 1 \<le> 2 ^ 53" by simp
  then have "(m + 1) * 2 ^ s \<le> 2 ^ 53 * 2 ^ s" by (rule mult_le_mono1)
  also have "\<dots> = 2 ^ e" by (simp only: split)
  also have "\<dots> \<le> 2 ^ k" using e by (intro power_increasing) simp_all
  finally have up: "(m + 1) * 2 ^ s \<le> 2 ^ k" .
  have "m * 2 ^ s \<le> (m + 1) * 2 ^ s" by simp
  from this up have "m * 2 ^ s \<le> 2 ^ k" by (rule order_trans)
  with up show ?thesis using False
    by (auto simp: round53_def Let_def e_def [symmetric] s_def [symmetric] m_def [symmetric])
qed

lemma trial_division_stop: "next_guess \<le> 1 \<Longrightarrow> trial_division value next_guess = next_guess"
  by (subst trial_division.simps) simp

lemma trial_division_pos:
  "1 \<le> next_guess \<Longrightarrow>
     1 \<le> trial_division value next_guess \<and> trial_division value next_guess \<le> next_guess \<and>
     (trial_division value next_guess = 1 \<or> value mod trial_division value next_guess = 0)"
proof (induction "value" next_guess rule: trial_division.induct)
  case (1 "value" next_guess)
  show ?case
  proof (cases "next_guess > 1 \<and> value mod next_guess \<noteq> 0")
    case True
    then have "1 \<le> next_guess - 1" by simp
    have "trial_division value next_guess = trial_division value (next_guess - 1)"
      using True by (subst trial_division.simps) simp
    with "1.IH" [OF True \<open>1 \<le> next_guess - 1\<close>] show ?thesis by auto
  next
    case False
    then have "trial_division value next_guess = next_guess"
      by (subst trial_division.simps) auto
    with False "1.prems" show ?thesis by auto
  qed
qed

lemma half_is_finite_below: "\<bar>value\<bar> < 2 ^ 1024 \<Longrightarrow> half_is_finite value"
proof -
  assume "\<bar>value\<bar> < 2 ^ 1024"
  then have "nat \<bar>value\<bar> < 2 ^ 1024" by (simp add: nat_less_iff)
  then have "round53 (nat \<bar>value\<bar>) \<le> 2 ^ 1024" by (rule round53_le_pow) simp
  also have "(2::nat) ^ 1024 < 2 ^ 1025" by (rule power_strict_increasing) simp_all
  finally show ?thesis by (simp only: half_is_finite_def)
qed

lemma int_of_half_finite:
  "half_is_finite value \<Longrightarrow>
     int_of_half value = Inr (sgn value * int (round53 (nat \<bar>value\<bar>) div 2))"
  by (simp only: int_of_half_def half_is_finite_def Let_def not_le [symmetric] if_False)

lemma int_of_half_pos:
  assumes "2 \<le> value" and "half_is_finite value"
  shows "\<exists>start. int_of_half value = Inr start \<and> 1 \<le> start"
proof -
  have "2 \<le> nat \<bar>value\<bar>" using assms(1) by simp
  then have "2 \<le> round53 (nat \<bar>value\<bar>)" by (rule round53_ge2)
  then have "1 \<le> round53 (nat \<bar>value\<bar>) div 2" by simp
  then have "1 \<le> sgn value * int (round53 (nat \<bar>value\<bar>) div 2)"
    using assms(1) by simp
  then show ?thesis using int_of_half_finite [OF assms(2)] by simp
qed

lemma int_of_half_neg:
  assumes "value \<le> - 2" and "half_is_finite value"
  shows "\<exists>start. int_of_half value = Inr start \<and> start \<le> - 1"
proof -
  have "2 \<le> nat \<bar>value\<bar>" using assms(1) by simp
  then have "2 \<le> round53 (nat \<bar>value\<bar>)" by (rule round53_ge2)
  then have "1 \<le> round53 (nat \<bar>value\<bar>) div 2" by simp
  then have "sgn value * int (round53 (nat \<bar>value\<bar>) div 2) \<le> - 1"
    using assms(1) by simp
  then show ?thesis using int_of_half_finite [OF assms(2)] by simp
qed

lemma int_of_half_unit:
  assumes "value \<in> {- 1, 0, 1}"
  shows "int_of_half value = Inr 0"
proof -
  have "nat \<bar>value\<bar> < 2 ^ 53" using assms by auto
  then have "round53 (nat \<bar>value\<bar>) = nat \<bar>value\<bar>" by (rule round53_small)
  then show ?thesis using assms by (auto simp: int_of_half_def)
qed

lemma long_factorize_fst:
  "fst (long_factorize offset base verbose w) =
     (case int_of_half (base + offset) of
        Inl e \<Rightarrow> Inl e
      | Inr start \<Rightarrow>
          if trial_division (base + offset) start = 0 then Inl ZeroDivisionError
          else Inr ((base + offset, trial_division (base + offset) start,
                     (base + offset) div trial_division (base + offset) start),
                    clock w (Suc (reads w)) - clock w (reads w)))"
  by (simp add: long_factorize_def fst_timed long_factorize_body_def Let_def vprint_def print_def
      split: sum.splits)

lemma bit_length_pow2: "bit_length (2 ^ k) = Suc k"
proof -
  have "\<not> bit_length (2 ^ k) \<le> k" by (simp add: bit_length_le_iff)
  moreover have "bit_length (2 ^ k) \<le> Suc k" by (simp add: bit_length_le_iff)
  ultimately show ?thesis by simp
qed

lemma round53_pow2: "round53 (2 ^ 1025) = 2 ^ 1025"
proof -
  have "(2::nat) ^ 1025 = 2 ^ 52 * 2 ^ 973" by (simp only: power_add [symmetric]) simp
  then have d: "(2::nat) ^ 1025 div 2 ^ 973 = 2 ^ 52" "(2::nat) ^ 1025 mod 2 ^ 973 = 0"
    by simp_all
  have s: "Suc 1025 - 53 = 973" "973 - 1 = (972::nat)" "\<not> Suc 1025 \<le> 53" by simp_all
  have h: "\<not> (2::nat) ^ 972 < 0" "(0::nat) \<noteq> 2 ^ 972" by simp_all
  show ?thesis
    unfolding round53_def Let_def bit_length_pow2
    by (simp only: s d h if_False simp_thms \<open>(2::nat) ^ 1025 = 2 ^ 52 * 2 ^ 973\<close> [symmetric])
qed

lemma int_of_half_overflow:
  "\<not> half_is_finite value \<Longrightarrow> int_of_half value = Inl OverflowError"
  by (simp add: int_of_half_def half_is_finite_def Let_def not_less del: power_numeral)

lemma round53_ge_pow: assumes "2 ^ k \<le> a" and "53 \<le> k" shows "2 ^ k \<le> round53 a"
proof -
  define e where "e = bit_length a"
  define s where "s = e - 53"
  define m where "m = a div 2 ^ s"
  have "\<not> a < 2 ^ k" using assms(1) by simp
  then have k: "k < e" using bit_length_le_iff [of a k] by (simp add: e_def)
  with assms(2) have e: "53 < e" by simp
  have pos: "0 < a" using assms(1) by (metis not_gr_zero not_less zero_less_numeral zero_less_power)
  have split: "(2::nat) ^ (e - 1) = 2 ^ 52 * 2 ^ s"
  proof -
    have "e - 1 = 52 + s" using e by (simp add: s_def)
    then show ?thesis by (simp only: power_add)
  qed
  have "2 ^ (e - 1) \<le> a" using bit_length_lower [OF pos] by (simp add: e_def)
  then have "2 ^ 52 * 2 ^ s \<le> a" by (simp only: split)
  then have "2 ^ 52 \<le> m" unfolding m_def
    by (simp add: less_eq_div_iff_mult_less_eq del: power_numeral)
  then have "2 ^ 52 * 2 ^ s \<le> m * 2 ^ s" by (rule mult_le_mono1)
  then have low: "2 ^ (e - 1) \<le> m * 2 ^ s" by (simp only: split)
  have "(2::nat) ^ k \<le> 2 ^ (e - 1)" using k by (intro power_increasing) simp_all
  with low have down: "2 ^ k \<le> m * 2 ^ s" by (rule order_trans [rotated])
  have "m * 2 ^ s \<le> (m + 1) * 2 ^ s" by simp
  with down have up: "2 ^ k \<le> (m + 1) * 2 ^ s" by (rule order_trans)
  from down up e show ?thesis
    by (auto simp: round53_def Let_def e_def [symmetric] s_def [symmetric] m_def [symmetric])
qed

lemma half_is_infinite_above: "2 ^ 1025 \<le> \<bar>value\<bar> \<Longrightarrow> \<not> half_is_finite value"
proof -
  assume "2 ^ 1025 \<le> \<bar>value\<bar>"
  then have "2 ^ 1025 \<le> nat \<bar>value\<bar>" by (simp add: le_nat_iff del: power_numeral)
  then have "2 ^ 1025 \<le> round53 (nat \<bar>value\<bar>)" by (rule round53_ge_pow) simp
  then show ?thesis by (simp only: half_is_finite_def not_less)
qed

section \<open>Properties of the dispatchers\<close>

text \<open>
  Claim C1, at the task count 0. The claim promises, for every N \<ge> 0, a result batch and
  a time batch of length N from ordered submit-and-collect and from map-and-collect.
  With no task there is no row to transpose, and the unpacking of \<open>zip()\<close> into two
  names raises \<open>ValueError\<close>: neither operation returns the two empty batches.
\<close>

theorem ordered_dispatch_zero_tasks_raises:
  "fst (submit_get_results a 0 pk False None vb w) =
     Inl (ValueError ''not enough values to unpack (expected 2, got 0)'') \<and>
   fst (map_results a 0 pk None vb w) =
     Inl (ValueError ''not enough values to unpack (expected 2, got 0)'')"
  by (simp add: map_results_eq submit_get_results_fst valid_workers_def tasks_of_def unpack_zip_def)

text \<open>
  Claim C2. For N = 0 the claim promises empty batches, no error and no submitted task.
  No task is submitted indeed, but every dispatcher call with N = 0 raises
  \<open>ValueError\<close>, in both collection modes of \<open>submit_get_results\<close> and in
  \<open>map_results\<close>, whatever \<open>max_workers\<close> is.
\<close>

theorem dispatch_zero_tasks_raises:
  "(\<exists>m. fst (submit_get_results a 0 pk ac mw vb w) = Inl (ValueError m)) \<and>
   submitted (snd (submit_get_results a 0 pk ac mw vb w)) = submitted w \<and>
   (\<exists>m. fst (map_results a 0 pk mw vb w) = Inl (ValueError m)) \<and>
   submitted (snd (map_results a 0 pk mw vb w)) = submitted w"
  by (simp add: map_results_eq submit_get_results_fst submit_get_results_submitted
      tasks_of_def unpack_zip_def)

text \<open>
  Claim C3. \<open>map_results\<close> and \<open>submit_get_results\<close> with \<open>as_completed=False\<close> are
  the same function: for every adapter, task count, pool kind, \<open>max_workers\<close>, verbosity
  and world they return the same outcome (batches and total time, or the same
  exception) and leave the same world behind.
\<close>

theorem map_results_equals_ordered_submit:
  "map_results a n pk mw vb w = submit_get_results a n pk False mw vb w"
  by (simp add: map_results_def submit_get_results_def timed_def map_results_body_eq)

text \<open>
  Claim C5. A \<open>submit_type\<close> other than \<open>'submit'\<close> and \<open>'map'\<close> makes
  \<open>display_results\<close> raise \<open>ValueError\<close> (the invalid-configuration error) before any
  pool is created and any task submitted, so the adapter is never invoked; only the
  line naming the adapter has been printed.
\<close>

theorem unrecognized_submit_type_rejected:
  assumes "submit_type \<noteq> ''submit''" and "submit_type \<noteq> ''map''"
  shows "fst (display_results a n pk submit_type ac mw vb w) =
           Inl (ValueError (''Unrecognized value for submit_type: '' @ submit_type)) \<and>
         pools_created (snd (display_results a n pk submit_type ac mw vb w)) = pools_created w \<and>
         submitted (snd (display_results a n pk submit_type ac mw vb w)) = submitted w \<and>
         stdout (snd (display_results a n pk submit_type ac mw vb w)) =
           stdout w @ [Running (name a)]"
  using assms by (simp add: display_results_def print_def Let_def)

theorem unrecognized_submit_type_rejected_witness:
  "fst (display_results index_adapter 3 ThreadPoolExecutor ''imap'' False None False
          (fresh_world real id)) =
     Inl (ValueError ''Unrecognized value for submit_type: imap'') \<and>
   pools_created (snd (display_results index_adapter 3 ThreadPoolExecutor ''imap'' False None
          False (fresh_world real id))) = 0 \<and>
   submitted (snd (display_results index_adapter 3 ThreadPoolExecutor ''imap'' False None
          False (fresh_world real id))) = []"
  using unrecognized_submit_type_rejected
    [of "''imap''" index_adapter 3 ThreadPoolExecutor False None False "fresh_world real id"]
  by (simp add: fresh_world_def)

text \<open>
  Claim C4. If the adapter raises for some index below N, the dispatch call raises: no
  batch, partial or whole, is returned. This holds for both collection modes of
  \<open>submit_get_results\<close>, for \<open>map_results\<close> and for both pool kinds; when the pool
  could be created, the exception that reaches the caller is one that the adapter
  raised for an index below N.
\<close>

theorem adapter_failure_propagates:
  assumes "i < n" and "invoke a i vb = Inl e"
  shows "(\<exists>e'. fst (submit_get_results a n pk ac mw vb w) = Inl e' \<and>
            (valid_workers mw \<longrightarrow> (\<exists>j<n. invoke a j vb = Inl e'))) \<and>
         (\<exists>e'. fst (map_results a n pk mw vb w) = Inl e' \<and>
            (valid_workers mw \<longrightarrow> (\<exists>j<n. invoke a j vb = Inl e')))"
  using dispatch_failure [OF assms, of pk ac mw w] dispatch_failure [OF assms, of pk False mw w]
  by (simp add: map_results_eq)

theorem adapter_failure_propagates_witness:
  "fst (submit_get_results failing_adapter 3 ProcessPoolExecutor True None False
          (fresh_world real id)) = Inl (Raised ''boom'') \<and>
   fst (submit_get_results failing_adapter 3 ProcessPoolExecutor False None False
          (fresh_world real id)) = Inl (Raised ''boom'') \<and>
   fst (map_results failing_adapter 3 ProcessPoolExecutor None False
          (fresh_world real id)) = Inl (Raised ''boom'')"
proof -
  have i: "(1::nat) < 3" by simp
  have f: "invoke failing_adapter 1 False = Inl (Raised ''boom'')"
    by (simp add: failing_adapter_def)
  have only: "\<And>j e'. invoke failing_adapter j False = Inl e' \<Longrightarrow> e' = Raised ''boom''"
    by (simp add: failing_adapter_def split: if_splits)
  have v: "valid_workers None" by (simp add: valid_workers_def)
  show ?thesis
    using adapter_failure_propagates [OF i f, of ProcessPoolExecutor True None "fresh_world real id"]
      adapter_failure_propagates [OF i f, of ProcessPoolExecutor False None "fresh_world real id"] v only
    by auto
qed

text \<open>
  Claim C7. Whenever \<open>submit_get_results\<close> returns batches in completion order, it
  returns batches in submission order for the same adapter and task count, and
  conversely; the two result batches are equal as multisets, and so are the two time
  batches. The two calls may run in different worlds (clock, yield ranks).
\<close>

theorem completion_order_permutes_ordered:
  "(fst (submit_get_results a n pk True mw vb w) = Inr ((rs', ts'), t') \<longrightarrow>
      (\<exists>rs ts t. fst (submit_get_results a n pk False mw vb w') = Inr ((rs, ts), t) \<and>
         mset rs' = mset rs \<and> mset ts' = mset ts)) \<and>
   (fst (submit_get_results a n pk False mw vb w') = Inr ((rs, ts), t) \<longrightarrow>
      (\<exists>rs' ts' t'. fst (submit_get_results a n pk True mw vb w) = Inr ((rs', ts'), t') \<and>
         mset rs' = mset rs \<and> mset ts' = mset ts))"
proof -
  define val where "val i = fst (projr (invoke a i vb))" for i
  define el where "el i = snd (projr (invoke a i vb))" for i
  have both: "fst (submit_get_results a n pk True mw vb w) =
        Inr ((map val (sort_key (yield_rank w) [0..<n]), map el (sort_key (yield_rank w) [0..<n])),
             clock w (Suc (reads w)) - clock w (reads w)) \<and>
      fst (submit_get_results a n pk False mw vb w') =
        Inr ((map val [0..<n], map el [0..<n]), clock w' (Suc (reads w')) - clock w' (reads w'))"
    if "fst (submit_get_results a n pk ac mw vb w0) = Inr r" for ac w0 r
  proof -
    note d = dispatch_returns_D [OF that]
    have ok: "\<And>i. i < n \<Longrightarrow> invoke a i vb = Inr (val i, el i)"
      using d(3) by (simp add: val_def el_def)
    show ?thesis
      using dispatch_success [OF d(1) d(2) ok, of pk True w]
        dispatch_success [OF d(1) d(2) ok, of pk False w'] by simp
  qed
  have perm: "mset (map g (sort_key (yield_rank w) [0..<n])) = mset (map g [0..<n])" for g :: "nat \<Rightarrow> 'x"
    by (simp only: mset_map mset_sort)
  show ?thesis
  proof (intro conjI impI)
    assume c: "fst (submit_get_results a n pk True mw vb w) = Inr ((rs', ts'), t')"
    from both [OF c] c show "\<exists>rs ts t. fst (submit_get_results a n pk False mw vb w') = Inr ((rs, ts), t) \<and>
         mset rs' = mset rs \<and> mset ts' = mset ts"
      using perm [of val] perm [of el] by auto
  next
    assume c: "fst (submit_get_results a n pk False mw vb w') = Inr ((rs, ts), t)"
    from both [OF c] c show "\<exists>rs' ts' t'. fst (submit_get_results a n pk True mw vb w) = Inr ((rs', ts'), t') \<and>
         mset rs' = mset rs \<and> mset ts' = mset ts"
      using perm [of val] perm [of el] by auto
  qed
qed

theorem completion_order_permutes_ordered_witness:
  "fst (submit_get_results index_adapter 2 ThreadPoolExecutor True None False
          (fresh_world real (\<lambda>i. 2 - i))) = Inr (([1, 0], [0, 0]), 1) \<and>
   fst (submit_get_results index_adapter 2 ThreadPoolExecutor False None False
          (fresh_world real id)) = Inr (([0, 1], [0, 0]), 1) \<and>
   mset [1, 0::nat] = mset [0, 1]"
proof -
  have c: "fst (submit_get_results index_adapter 2 ThreadPoolExecutor True None False
          (fresh_world real (\<lambda>i. 2 - i))) = Inr (([1, 0], [0, 0]), 1)"
    by (simp add: submit_get_results_fst valid_workers_def fresh_world_def sort_desc
        tasks_of_def index_adapter_def future_result_def unpack_zip_def)
  have o: "fst (submit_get_results index_adapter 2 ThreadPoolExecutor False None False
          (fresh_world real id)) = Inr (([0, 1], [0, 0]), 1)"
    by (simp add: submit_get_results_fst valid_workers_def fresh_world_def upt_conv_Cons
        tasks_of_def index_adapter_def future_result_def unpack_zip_def)
  from completion_order_permutes_ordered [of index_adapter 2 ThreadPoolExecutor None False "fresh_world real (\<lambda>i. 2 - i)"
      "[1, 0]" "[0, 0]" 1 "fresh_world real id" "[0, 1]" "[0, 0]" 1] c o
  show ?thesis by simp
qed






section \<open>Properties of the timing wrapper\<close>

text \<open>
  Claim C6, at a clock that is set back during the call. The claim asks for the
  elapsed time of a monotonic clock around the invocation, and the docstring of
  \<open>timed\<close> promises the time taken in seconds. The wrapper reads \<open>time.time\<close>, the
  wall clock: with the readings 10 before the call and 7 after it, it returns the
  result of the call with the elapsed time \<open>- 3\<close>.
\<close>

theorem timed_elapsed_negative:
  "fst (timed (\<lambda>w. (Inr (), w)) (fresh_world (\<lambda>k. if k = 0 then 10 else 7) id :: nat world))
     = (Inr ((), - 3) :: exn + unit \<times> seconds)"
  by (simp add: timed_eq fresh_world_def)

section \<open>Properties of the factorizer\<close>

text \<open>
  Claim C10, as stated, fails twice. For \<open>base + offset = - 2\<close> the first guess is
  \<open>int(- 1.0) = - 1\<close>, not 0: no division by zero happens and the triple
  \<open>(- 2, - 1, 2)\<close> is returned. For \<open>base + offset = 2 ^ 1025\<close> the quotient
  \<open>value / 2\<close> is beyond the doubles and \<open>OverflowError\<close> is raised instead of a
  triple being returned.
\<close>

theorem long_factorize_counterexamples:
  "fst (long_factorize (- 100000003) 100000001 False (fresh_world real id :: nat world)) =
     Inr ((- 2, - 1, 2), 1) \<and>
   fst (long_factorize (2 ^ 1025) 0 False (fresh_world real id :: nat world)) =
     Inl OverflowError"
proof -
  have a: "int_of_half (- 2) = Inr (- 1)"
    by (simp add: int_of_half_def round53_small)
  have b: "int_of_half (2 ^ 1025) = Inl OverflowError"
  proof -
    have "nat \<bar>(2::int) ^ 1025\<bar> = 2 ^ 1025" by (simp del: power_numeral add: nat_power_eq)
    then show ?thesis by (simp only: int_of_half_def Let_def round53_pow2) simp
  qed
  show ?thesis
    using a b by (simp add: long_factorize_fst trial_division_stop fresh_world_def del: power_numeral)
qed

text \<open>
  Claim C10, amended. Say that the half of \<open>value\<close> is finite when \<open>value / 2\<close> is
  within the range of the doubles (it is whenever \<open>\<bar>value\<bar> < 2 ^ 1024\<close>, and it is not
  whenever \<open>\<bar>value\<bar> \<ge> 2 ^ 1025\<close>). For \<open>base + offset \<ge> 2\<close> with a finite half,
  \<open>long_factorize\<close> returns (the loop is a total function) a triple
  \<open>(value, f1, f2)\<close> with \<open>value = base + offset\<close>, \<open>f1 \<ge> 1\<close> (the value of
  \<open>next_guess\<close> at the exit of the loop, so the division is not by zero) and
  \<open>f1 * f2 = value\<close>. For \<open>base + offset\<close> in \<open>{- 1, 0, 1}\<close> the first guess is 0 and
  \<open>ZeroDivisionError\<close> is raised. For \<open>base + offset \<le> - 2\<close> with a finite half the
  guess is negative, nothing is divided by zero and a triple with \<open>f1 \<le> - 1\<close> is
  returned. For every \<open>base + offset\<close> whose half is not finite, \<open>OverflowError\<close> is
  raised.
\<close>

theorem long_factorize_returns_or_raises:
  "(2 \<le> base + offset \<and> half_is_finite (base + offset) \<longrightarrow>
      (\<exists>f1 f2 t. fst (long_factorize offset base verbose w) = Inr ((base + offset, f1, f2), t) \<and>
         1 \<le> f1 \<and> f1 * f2 = base + offset)) \<and>
   (base + offset \<in> {- 1, 0, 1} \<longrightarrow>
      fst (long_factorize offset base verbose w) = Inl ZeroDivisionError) \<and>
   (base + offset \<le> - 2 \<and> half_is_finite (base + offset) \<longrightarrow>
      (\<exists>f1 f2 t. fst (long_factorize offset base verbose w) = Inr ((base + offset, f1, f2), t) \<and>
         f1 \<le> - 1)) \<and>
   (\<not> half_is_finite (base + offset) \<longrightarrow>
      fst (long_factorize offset base verbose w) = Inl OverflowError)"
proof (intro conjI impI)
  assume "2 \<le> base + offset \<and> half_is_finite (base + offset)"
  then obtain start :: int where s: "int_of_half (base + offset) = Inr start" "1 \<le> start"
    using int_of_half_pos [of "base + offset"] by blast
  define f1 where "f1 = trial_division (base + offset) start"
  from trial_division_pos [OF s(2), of "base + offset"]
  have f1: "1 \<le> f1" "f1 = 1 \<or> (base + offset) mod f1 = 0" by (simp_all add: f1_def)
  then have "f1 * ((base + offset) div f1) = base + offset" by auto
  with f1(1) s(1) show "\<exists>f1 f2 t. fst (long_factorize offset base verbose w) = Inr ((base + offset, f1, f2), t) \<and>
         1 \<le> f1 \<and> f1 * f2 = base + offset"
    by (simp add: long_factorize_fst f1_def [symmetric])
next
  assume "base + offset \<in> {- 1, 0, 1}"
  then have "int_of_half (base + offset) = Inr 0" by (rule int_of_half_unit)
  then show "fst (long_factorize offset base verbose w) = Inl ZeroDivisionError"
    by (simp add: long_factorize_fst trial_division_stop)
next
  assume "base + offset \<le> - 2 \<and> half_is_finite (base + offset)"
  then obtain start :: int where s: "int_of_half (base + offset) = Inr start" "start \<le> - 1"
    using int_of_half_neg [of "base + offset"] by blast
  then have "trial_division (base + offset) start = start" by (intro trial_division_stop) simp
  with s show "\<exists>f1 f2 t. fst (long_factorize offset base verbose w) = Inr ((base + offset, f1, f2), t) \<and>
         f1 \<le> - 1"
    by (simp add: long_factorize_fst)
next
  assume "\<not> half_is_finite (base + offset)"
  then have "int_of_half (base + offset) = Inl OverflowError" by (rule int_of_half_overflow)
  then show "fst (long_factorize offset base verbose w) = Inl OverflowError"
    by (simp add: long_factorize_fst)
qed

theorem long_factorize_returns_or_raises_witness:
  "(\<exists>f1 f2 t. fst (long_factorize 5 10 False (fresh_world real id :: nat world)) =
        Inr ((15, f1, f2), t) \<and> 1 \<le> f1 \<and> f1 * f2 = 15) \<and>
   fst (long_factorize (- 9) 10 False (fresh_world real id :: nat world)) =
     Inl ZeroDivisionError \<and>
   (\<exists>f1 f2 t. fst (long_factorize (- 15) 10 False (fresh_world real id :: nat world)) =
        Inr ((- 5, f1, f2), t) \<and> f1 \<le> - 1) \<and>
   fst (long_factorize (- (2 ^ 1025)) 0 False (fresh_world real id :: nat world)) =
     Inl OverflowError"
proof -
  have a: "half_is_finite (10 + 5)" by (rule half_is_finite_below) simp
  have c: "half_is_finite (10 + - 15)" by (rule half_is_finite_below) simp
  have d: "\<not> half_is_finite (0 + - (2 ^ 1025))" by (rule half_is_infinite_above) simp
  show ?thesis
    using long_factorize_returns_or_raises [of 10 5 False "fresh_world real id :: nat world"]
      long_factorize_returns_or_raises [of 10 "- 9" False "fresh_world real id :: nat world"]
      long_factorize_returns_or_raises [of 10 "- 15" False "fresh_world real id :: nat world"]
      long_factorize_returns_or_raises [of 0 "- (2 ^ 1025)" False "fresh_world real id :: nat world"]
      a c d
    by (simp del: power_numeral)
qed

end
